theory Spec2Isabelle
  imports Complex_Main "HOL-Library.AList"
begin

section \<open>Strings of the host language\<close>

text \<open>
  A JavaScript string is a sequence of UTF-16 code units. A code unit is modelled by its
  numeric value, a string by the list of its code units. \<open>js\<close> turns an ASCII literal
  into such a string.
\<close>

type_synonym jschar = nat
type_synonym jsstring = "jschar list"

definition js :: "string \<Rightarrow> jsstring" where
  "js s = map of_char s"

definition backslash :: jschar where "backslash = 0x5C"
definition dot :: jschar where "dot = 0x2E"
definition star :: jschar where "star = 0x2A"
definition qmark :: jschar where "qmark = 0x3F"
definition plusSign :: jschar where "plusSign = 0x2B"
definition caret :: jschar where "caret = 0x5E"
definition dollar :: jschar where "dollar = 0x24"
definition lbrace :: jschar where "lbrace = 0x7B"
definition rbrace :: jschar where "rbrace = 0x7D"
definition lparen :: jschar where "lparen = 0x28"
definition rparen :: jschar where "rparen = 0x29"
definition pipe :: jschar where "pipe = 0x7C"
definition lbrack :: jschar where "lbrack = 0x5B"
definition rbrack :: jschar where "rbrack = 0x5D"
definition slash :: jschar where "slash = 0x2F"

text \<open>
  The line terminators of the language (LF, CR, LS, PS) and its white space
  (TAB, VT, FF, SP, NBSP, ZWNBSP and the space separators of Unicode): the characters
  that \<open>String.prototype.trim\<close> removes are the union of the two.
\<close>

definition lineTerminator :: "jschar \<Rightarrow> bool" where
  "lineTerminator c \<longleftrightarrow> c = 0x0A \<or> c = 0x0D \<or> c = 0x2028 \<or> c = 0x2029"

definition whiteSpace :: "jschar \<Rightarrow> bool" where
  "whiteSpace c \<longleftrightarrow>
     c = 0x09 \<or> c = 0x0B \<or> c = 0x0C \<or> c = 0x20 \<or> c = 0xA0 \<or> c = 0xFEFF \<or>
     c = 0x1680 \<or> (0x2000 \<le> c \<and> c \<le> 0x200A) \<or> c = 0x202F \<or> c = 0x205F \<or> c = 0x3000"

definition trimmable :: "jschar \<Rightarrow> bool" where
  "trimmable c \<longleftrightarrow> whiteSpace c \<or> lineTerminator c"

definition trim :: "jsstring \<Rightarrow> jsstring" where
  "trim s = rev (dropWhile trimmable (rev (dropWhile trimmable s)))"

text \<open>
  The relational operator \<open><\<close> on two strings compares them code unit by code unit;
  a proper prefix is smaller.
\<close>

fun jsLess :: "jsstring \<Rightarrow> jsstring \<Rightarrow> bool" where
  "jsLess [] [] = False"
| "jsLess [] (y # ys) = True"
| "jsLess (x # xs) [] = False"
| "jsLess (x # xs) (y # ys) = (x < y \<or> (x = y \<and> jsLess xs ys))"

section \<open>The regular expressions the program uses\<close>

text \<open>
  Case-insensitive matching (flag \<open>i\<close>, no flag \<open>u\<close>) compares the canonical forms of
  two code units: the upper-case form of the code unit, unless that form is not a single
  code unit or maps a non-ASCII code unit into ASCII. On ASCII the upper-case form is
  fixed here; beyond ASCII it is the engine's Unicode table, which is a parameter
  \<open>tbl\<close> of every function that matches (the single-code-unit upper-case form, the
  code unit itself where there is none).
\<close>

definition toUpperCaseUnit :: "(jschar \<Rightarrow> jschar) \<Rightarrow> jschar \<Rightarrow> jschar" where
  "toUpperCaseUnit tbl ch =
     (if 0x61 \<le> ch \<and> ch \<le> 0x7A then ch - 0x20
      else if ch < 0x80 then ch
      else tbl ch)"

definition canonicalize :: "(jschar \<Rightarrow> jschar) \<Rightarrow> jschar \<Rightarrow> jschar" where
  "canonicalize tbl ch =
     (let cu = toUpperCaseUnit tbl ch
      in if 0x80 \<le> ch \<and> cu < 0x80 then ch else cu)"

text \<open>A table with no case pairs beyond ASCII, for evaluating ASCII examples.\<close>

definition asciiTable :: "jschar \<Rightarrow> jschar" where
  "asciiTable ch = ch"

text \<open>
  The fragment of the pattern language that the program's regular expressions live in:
  a sequence of terms, each an atom (a literal code unit or \<open>.\<close>) with an optional
  quantifier \<open>?\<close> or \<open>*\<close> (greedy, or lazy when followed by \<open>?\<close>), or the assertion
  \<open>$\<close>.
\<close>

datatype atom = Lit jschar | AnyChar

datatype quantifier = One | Opt bool | Star bool

datatype rterm = Term atom quantifier | AssertEnd

type_synonym regex = "rterm list"

datatype error = SyntaxError | Unmodelled

definition syntaxCharacter :: "jschar \<Rightarrow> bool" where
  "syntaxCharacter c \<longleftrightarrow>
     c \<in> set [caret, dollar, backslash, dot, star, plusSign, qmark, lparen, rparen,
              lbrack, rbrack, lbrace, rbrace, pipe]"

text \<open>
  The quantifier that follows an atom, and the rest of the source after it.
\<close>

fun parseQuantifier :: "jsstring \<Rightarrow> quantifier \<times> jsstring" where
  "parseQuantifier [] = (One, [])"
| "parseQuantifier [c] =
     (if c = star then (Star True, []) else if c = qmark then (Opt True, []) else (One, [c]))"
| "parseQuantifier (c # d # r) =
     (if c = star then (if d = qmark then (Star False, r) else (Star True, d # r))
      else if c = qmark then (if d = qmark then (Opt False, r) else (Opt True, d # r))
      else (One, c # d # r))"

text \<open>
  \<open>new RegExp(source, "i")\<close> on the fragment. A quantifier with nothing before it
  is the engine's SyntaxError ("nothing to repeat"), as is a lone backslash at the end.
  A backslash before a syntax character (or \<open>/\<close>) is that character, literally. Every
  other construct of the pattern language (groups, classes, alternation, \<open>^\<close>, \<open>$\<close>,
  \<open>+\<close>, braces, the other escapes) is outside the fragment and answered by
  \<open>Unmodelled\<close>; \<open>compile_plain\<close> and \<open>compile_in_fragment\<close> below show that no
  source the program builds gets there.
\<close>

function parseTerms :: "jsstring \<Rightarrow> error + regex" where
  "parseTerms [] = Inr []"
| "parseTerms (c # cs) =
     (if c = star \<or> c = qmark then Inl SyntaxError
      else if c = backslash then
        (case cs of
           [] \<Rightarrow> Inl SyntaxError
         | d # ds \<Rightarrow>
             if syntaxCharacter d \<or> d = slash then
               (case parseTerms (snd (parseQuantifier ds)) of
                  Inl e \<Rightarrow> Inl e
                | Inr ts \<Rightarrow> Inr (Term (Lit d) (fst (parseQuantifier ds)) # ts))
             else Inl Unmodelled)
      else if c = dot then
        (case parseTerms (snd (parseQuantifier cs)) of
           Inl e \<Rightarrow> Inl e
         | Inr ts \<Rightarrow> Inr (Term AnyChar (fst (parseQuantifier cs)) # ts))
      else if syntaxCharacter c then Inl Unmodelled
      else
        (case parseTerms (snd (parseQuantifier cs)) of
           Inl e \<Rightarrow> Inl e
         | Inr ts \<Rightarrow> Inr (Term (Lit c) (fst (parseQuantifier cs)) # ts)))"
  by pat_completeness auto
termination
proof -
  have shorter: "length (snd (parseQuantifier s)) < Suc (length s)" for s
    by (induction s rule: parseQuantifier.induct) auto
  then have shorter': "length (snd (parseQuantifier s)) < Suc (Suc (length s))" for s
    using less_SucI by blast
  show ?thesis
    by (relation "measure length") (auto simp: shorter shorter')
qed

text \<open>
  Matching a code unit against an atom: a literal matches when the canonical forms
  agree, \<open>.\<close> matches everything but a line terminator (no flag \<open>s\<close>).
\<close>

fun atomMatches :: "(jschar \<Rightarrow> jschar) \<Rightarrow> atom \<Rightarrow> jschar \<Rightarrow> bool" where
  "atomMatches tbl (Lit c) d = (canonicalize tbl c = canonicalize tbl d)"
| "atomMatches tbl AnyChar d = (\<not> lineTerminator d)"

text \<open>
  The backtracking matcher: \<open>matchEnd tbl re s\<close> matches \<open>re\<close> at the start of \<open>s\<close>
  and returns what is left of \<open>s\<close> after the first match in the engine's order of
  preference (a greedy quantifier tries the longer alternative first, a lazy one the
  shorter), \<open>None\<close> when there is no match at this position.
\<close>

fun orElse :: "'a option \<Rightarrow> 'a option \<Rightarrow> 'a option" where
  "orElse (Some x) y = Some x"
| "orElse None y = y"

function matchEnd :: "(jschar \<Rightarrow> jschar) \<Rightarrow> regex \<Rightarrow> jsstring \<Rightarrow> jsstring option" where
  "matchEnd tbl [] s = Some s"
| "matchEnd tbl (AssertEnd # ts) s = (if s = [] then matchEnd tbl ts s else None)"
| "matchEnd tbl (Term a One # ts) [] = None"
| "matchEnd tbl (Term a One # ts) (c # cs) =
     (if atomMatches tbl a c then matchEnd tbl ts cs else None)"
| "matchEnd tbl (Term a (Opt g) # ts) [] = matchEnd tbl ts []"
| "matchEnd tbl (Term a (Opt g) # ts) (c # cs) =
     (if atomMatches tbl a c then
        (if g then orElse (matchEnd tbl ts cs) (matchEnd tbl ts (c # cs))
         else orElse (matchEnd tbl ts (c # cs)) (matchEnd tbl ts cs))
      else matchEnd tbl ts (c # cs))"
| "matchEnd tbl (Term a (Star g) # ts) [] = matchEnd tbl ts []"
| "matchEnd tbl (Term a (Star g) # ts) (c # cs) =
     (if atomMatches tbl a c then
        (if g then orElse (matchEnd tbl (Term a (Star g) # ts) cs) (matchEnd tbl ts (c # cs))
         else orElse (matchEnd tbl ts (c # cs)) (matchEnd tbl (Term a (Star g) # ts) cs))
      else matchEnd tbl ts (c # cs))"
  by pat_completeness auto
termination
  by (relation "measures [\<lambda>(tbl, re, s). length re, \<lambda>(tbl, re, s). length s]") auto

text \<open>
  \<open>regex.test(text)\<close> without the flags \<open>g\<close> and \<open>y\<close>: the search starts at every
  position of the text in turn, the position after the last code unit included.
\<close>

fun regexTest :: "(jschar \<Rightarrow> jschar) \<Rightarrow> regex \<Rightarrow> jsstring \<Rightarrow> bool" where
  "regexTest tbl re [] = (matchEnd tbl re [] \<noteq> None)"
| "regexTest tbl re (c # cs) = (matchEnd tbl re (c # cs) \<noteq> None \<or> regexTest tbl re cs)"

text \<open>
  \<open>text.replace(regex, "")\<close> without the flag \<open>g\<close>: the leftmost match is removed,
  the text comes back as it is when there is none.
\<close>

fun replaceEmpty :: "(jschar \<Rightarrow> jschar) \<Rightarrow> regex \<Rightarrow> jsstring \<Rightarrow> jsstring" where
  "replaceEmpty tbl re [] = (case matchEnd tbl re [] of Some rest \<Rightarrow> rest | None \<Rightarrow> [])"
| "replaceEmpty tbl re (c # cs) =
     (case matchEnd tbl re (c # cs) of
        Some rest \<Rightarrow> rest
      | None \<Rightarrow> c # replaceEmpty tbl re cs)"

section \<open>URL and title matching (utils/storage.js)\<close>

text \<open>
  \<open>pattern.replace(/[.+^${}()|[\]\\]/g, "\\$&")\<close>: a backslash goes before every
  code unit of the class; \<open>*\<close> and \<open>?\<close> are not in the class.
\<close>

definition escapeClass :: "jschar list" where
  "escapeClass = [dot, plusSign, caret, dollar, lbrace, rbrace, lparen, rparen, pipe,
                  lbrack, rbrack, backslash]"

fun escapeSpecial :: "jsstring \<Rightarrow> jsstring" where
  "escapeSpecial [] = []"
| "escapeSpecial (c # cs) =
     (if c \<in> set escapeClass then backslash # c # escapeSpecial cs else c # escapeSpecial cs)"

text \<open>\<open>.replace(/\*/g, ".*")\<close>\<close>

fun starToAny :: "jsstring \<Rightarrow> jsstring" where
  "starToAny [] = []"
| "starToAny (c # cs) = (if c = star then dot # star # starToAny cs else c # starToAny cs)"

definition textMatchesPattern ::
  "(jschar \<Rightarrow> jschar) \<Rightarrow> jsstring \<Rightarrow> jsstring \<Rightarrow> error + bool" where
  "textMatchesPattern tbl text pattern =
     (let escaped = starToAny (escapeSpecial pattern)
      in case parseTerms escaped of
           Inl e \<Rightarrow> Inl e
         | Inr regex \<Rightarrow> Inr (regexTest tbl regex text))"

text \<open>
  The matching that the specification describes, read off its words: \<open>*\<close> stands for
  zero or more characters, every other character for itself, case-insensitively, and
  the pattern covers the whole of the text it is compared with. (A character that
  \<open>*\<close> stands for is any but a line terminator, as for \<open>.\<close> above.)
\<close>

fun wildcardMatches :: "(jschar \<Rightarrow> jschar) \<Rightarrow> jsstring \<Rightarrow> jsstring \<Rightarrow> bool" where
  "wildcardMatches tbl [] t = (t = [])"
| "wildcardMatches tbl (c # p) [] = (c = star \<and> wildcardMatches tbl p [])"
| "wildcardMatches tbl (c # p) (d # t) =
     (if c = star then
        wildcardMatches tbl p (d # t) \<or> (\<not> lineTerminator d \<and> wildcardMatches tbl (c # p) t)
      else canonicalize tbl c = canonicalize tbl d \<and> wildcardMatches tbl p t)"

text \<open>The term that a pattern character without \<open>?\<close> around it compiles to.\<close>

definition wildcardTerm :: "jschar \<Rightarrow> rterm" where
  "wildcardTerm c = (if c = star then Term AnyChar (Star True) else Term (Lit c) One)"

subsection \<open>extractPrimaryName\<close>

text \<open>
  The nine regular expression literals \<open>/ - Google Drive$/i\<close>, ...: the text of each
  (with a hyphen, an en dash U+2013 or an em dash U+2014), and the expression itself,
  whose characters are all literal and which ends in the assertion \<open>$\<close>.
\<close>

definition suffixTexts :: "jsstring list" where
  "suffixTexts =
     [js '' - Google Drive'',
      js '' - Google Docs'',
      js '' - Google Sheets'',
      js '' - Google Slides'',
      js '' - Google Forms'',
      [0x20, 0x2013] @ js '' Google Drive'',
      [0x20, 0x2013] @ js '' Google Docs'',
      [0x20, 0x2014] @ js '' Google Drive'',
      [0x20, 0x2014] @ js '' Google Docs'']"

definition suffixRegex :: "jsstring \<Rightarrow> regex" where
  "suffixRegex lit = map (\<lambda>c. Term (Lit c) One) lit @ [AssertEnd]"

definition suffixes :: "regex list" where
  "suffixes = map suffixRegex suffixTexts"

text \<open>
  \<open>title\<close> is \<open>None\<close> when the argument is absent (\<open>undefined\<close> or \<open>null\<close>); the
  empty string is falsy as well. The loop goes through all nine expressions and has no
  \<open>break\<close>.
\<close>

definition extractPrimaryName :: "(jschar \<Rightarrow> jschar) \<Rightarrow> jsstring option \<Rightarrow> jsstring" where
  "extractPrimaryName tbl title =
     (case title of
        None \<Rightarrow> []
      | Some t \<Rightarrow>
          if t = [] then []
          else trim (foldl (\<lambda>primaryName suffix. replaceEmpty tbl suffix primaryName) t suffixes))"

text \<open>
  Removing a suffix from a string that ends with it, case-insensitively: what one
  \<open>replace\<close> of the loop amounts to (\<open>replaceEmpty_suffix\<close> below).
\<close>

definition stripSuffixCI :: "(jschar \<Rightarrow> jschar) \<Rightarrow> jsstring \<Rightarrow> jsstring \<Rightarrow> jsstring" where
  "stripSuffixCI tbl lit s =
     (if length lit \<le> length s \<and>
         map (canonicalize tbl) (drop (length s - length lit) s) = map (canonicalize tbl) lit
      then take (length s - length lit) s
      else s)"

subsection \<open>matchTabToProject\<close>

text \<open>
  A project rule. \<open>patterns\<close> is \<open>None\<close> when the property is absent, which the loops
  guard against (\<open>project.patterns && project.patterns.length > 0\<close>).
\<close>

record project =
  ident :: jsstring
  name :: jsstring
  color :: jsstring
  patterns :: "jsstring list option"

text \<open>
  The three passes are the same two nested loops with a different test in the middle.
  \<open>scanPatterns\<close> is the inner loop, \<open>scanProjects\<close> the outer one; \<open>test\<close> is the
  condition of the \<open>if\<close>, which may raise. A project is returned at the first pattern
  whose test is true.
\<close>

fun scanPatterns :: "(jsstring \<Rightarrow> error + bool) \<Rightarrow> jsstring list \<Rightarrow> error + bool" where
  "scanPatterns test [] = Inr False"
| "scanPatterns test (pattern # rest) =
     (case test pattern of
        Inl e \<Rightarrow> Inl e
      | Inr hit \<Rightarrow> if hit then Inr True else scanPatterns test rest)"

fun scanProjects ::
  "(jsstring \<Rightarrow> error + bool) \<Rightarrow> project list \<Rightarrow> error + project option" where
  "scanProjects test [] = Inr None"
| "scanProjects test (proj # rest) =
     (case patterns proj of
        None \<Rightarrow> scanProjects test rest
      | Some ps \<Rightarrow>
          if length ps > 0 then
            (case scanPatterns test ps of
               Inl e \<Rightarrow> Inl e
             | Inr hit \<Rightarrow> if hit then Inr (Some proj) else scanProjects test rest)
          else scanProjects test rest)"

definition matchTabToProject ::
  "(jschar \<Rightarrow> jschar) \<Rightarrow> jsstring \<Rightarrow> jsstring \<Rightarrow> project list \<Rightarrow> error + project option" where
  "matchTabToProject tbl url title projects =
     (let primaryName = extractPrimaryName tbl (Some title)
      in case scanProjects
                (\<lambda>pattern. if primaryName \<noteq> [] then textMatchesPattern tbl primaryName pattern
                            else Inr False) projects of
           Inl e \<Rightarrow> Inl e
         | Inr (Some proj) \<Rightarrow> Inr (Some proj)
         | Inr None \<Rightarrow>
             (case scanProjects
                     (\<lambda>pattern. if title \<noteq> [] \<and> title \<noteq> primaryName
                                 then textMatchesPattern tbl title pattern
                                 else Inr False) projects of
                Inl e \<Rightarrow> Inl e
              | Inr (Some proj) \<Rightarrow> Inr (Some proj)
              | Inr None \<Rightarrow> scanProjects (\<lambda>pattern. textMatchesPattern tbl url pattern) projects))"

text \<open>
  Rules for the examples below: one whose second pattern is a lone \<open>?\<close>, one with the
  pattern \<open>r\<close>, and one with the pattern that the popup makes of the project name
  \<open>??\<close>.
\<close>

definition ruleBad :: project where
  "ruleBad = \<lparr>ident = js ''1'', name = js ''Bad'', color = js ''grey'',
               patterns = Some [js ''z'', js ''?'']\<rparr>"

definition ruleGood :: project where
  "ruleGood = \<lparr>ident = js ''2'', name = js ''Good'', color = js ''blue'',
                patterns = Some [js ''r'']\<rparr>"

definition ruleQuestions :: project where
  "ruleQuestions = \<lparr>ident = js ''3'', name = js ''??'', color = js ''red'',
                     patterns = Some [js ''*??*'']\<rparr>"

section \<open>Time tracking data (utils/storage.js)\<close>

subsection \<open>Day keys\<close>

text \<open>
  The calendar date (UTC) that a \<open>Date\<close> object stands for, from year 0 on, and the
  first ten characters of its \<open>toISOString()\<close>: \<open>YYYY-MM-DD\<close> up to the year 9999, the
  expanded form \<open>+YYYYYY-MM\<close> after it.
\<close>

record date =
  year :: nat
  month :: nat
  dayOfMonth :: nat

definition digitChar :: "nat \<Rightarrow> jschar" where
  "digitChar n = 0x30 + n mod 10"

definition pad2 :: "nat \<Rightarrow> jsstring" where
  "pad2 n = [digitChar (n div 10), digitChar n]"

definition pad4 :: "nat \<Rightarrow> jsstring" where
  "pad4 n = pad2 (n div 100) @ pad2 n"

definition isoYear :: "nat \<Rightarrow> jsstring" where
  "isoYear y = (if y \<le> 9999 then pad4 y else plusSign # pad2 (y div 10000) @ pad4 y)"

definition toISODate :: "date \<Rightarrow> jsstring" where
  "toISODate d =
     take 10 (isoYear (year d) @ [0x2D] @ pad2 (month d) @ [0x2D] @ pad2 (dayOfMonth d))"

text \<open>\<open>todayKey()\<close>, \<open>today\<close> being the date that \<open>new Date()\<close> reads off the clock.\<close>

definition todayKey :: "date \<Rightarrow> jsstring" where
  "todayKey today = toISODate today"

text \<open>
  The calendar, for saying what "one day older" is: a date of the Gregorian calendar,
  the order of dates, and the day before a date.
\<close>

definition leapYear :: "nat \<Rightarrow> bool" where
  "leapYear y \<longleftrightarrow> y mod 4 = 0 \<and> (y mod 100 \<noteq> 0 \<or> y mod 400 = 0)"

definition daysInMonth :: "nat \<Rightarrow> nat \<Rightarrow> nat" where
  "daysInMonth y m =
     (if m = 2 then (if leapYear y then 29 else 28)
      else if m = 4 \<or> m = 6 \<or> m = 9 \<or> m = 11 then 30
      else 31)"

definition validDate :: "date \<Rightarrow> bool" where
  "validDate d \<longleftrightarrow>
     year d \<le> 9999 \<and> 1 \<le> month d \<and> month d \<le> 12 \<and>
     1 \<le> dayOfMonth d \<and> dayOfMonth d \<le> daysInMonth (year d) (month d)"

definition dateBefore :: "date \<Rightarrow> date \<Rightarrow> bool" where
  "dateBefore a b \<longleftrightarrow>
     year a < year b \<or>
     (year a = year b \<and>
        (month a < month b \<or> (month a = month b \<and> dayOfMonth a < dayOfMonth b)))"

text \<open>The dates whose day key has the form \<open>YYYY-MM-DD\<close>, two digits for month and day.\<close>

definition keyable :: "date \<Rightarrow> bool" where
  "keyable d \<longleftrightarrow> year d \<le> 9999 \<and> month d < 100 \<and> dayOfMonth d < 100"

definition dayBefore :: "date \<Rightarrow> date" where
  "dayBefore d =
     (if 1 < dayOfMonth d then d\<lparr>dayOfMonth := dayOfMonth d - 1\<rparr>
      else if 1 < month d then
        d\<lparr>month := month d - 1, dayOfMonth := daysInMonth (year d) (month d - 1)\<rparr>
      else \<lparr>year = year d - 1, month = 12, dayOfMonth = 31\<rparr>)"

subsection \<open>The ledger\<close>

text \<open>
  \<open>timeData\<close> is a plain object whose keys are day keys and whose values are plain
  objects from project name to seconds. An object is modelled by the list of its own
  properties. Reading a property of a plain object that it does not own goes on to
  \<open>Object.prototype\<close>, whose property names are listed below; writing to
  \<open>__proto__\<close> a value that is not an object stores nothing.

  A value in a day's object is a number, or what the expression
  \<open>(value || 0) + seconds\<close> makes of a value that is not a number: the string
  concatenation of that value and the number, kept as the pair of its two parts
  (\<open>Concat\<close>). \<open>Inherited k\<close> is the property \<open>k\<close> of \<open>Object.prototype\<close>, a function
  or an object. Seconds are exact rationals here; the program's are doubles.
\<close>

datatype jsvalue = Number rat | Concat jsvalue rat | Inherited jsstring

type_synonym jsobject = "(jsstring \<times> jsvalue) list"

type_synonym ledger = "(jsstring \<times> jsobject) list"

definition objectPrototypeKeys :: "jsstring list" where
  "objectPrototypeKeys =
     [js ''constructor'', js ''__defineGetter__'', js ''__defineSetter__'',
      js ''hasOwnProperty'', js ''__lookupGetter__'', js ''__lookupSetter__'',
      js ''isPrototypeOf'', js ''propertyIsEnumerable'', js ''toString'', js ''valueOf'',
      js ''__proto__'', js ''toLocaleString'']"

text \<open>\<open>obj[key]\<close>; \<open>None\<close> is \<open>undefined\<close>.\<close>

definition getProp :: "jsobject \<Rightarrow> jsstring \<Rightarrow> jsvalue option" where
  "getProp obj key =
     (case map_of obj key of
        Some v \<Rightarrow> Some v
      | None \<Rightarrow> if key \<in> set objectPrototypeKeys then Some (Inherited key) else None)"

text \<open>\<open>obj[key] = v\<close> for a number or a string \<open>v\<close>.\<close>

definition setProp :: "jsobject \<Rightarrow> jsstring \<Rightarrow> jsvalue \<Rightarrow> jsobject" where
  "setProp obj key v = (if key = js ''__proto__'' then obj else AList.update key v obj)"

text \<open>
  \<open>(value || 0) + seconds\<close>: \<open>undefined\<close> and the number 0 are falsy; a function, an
  object and a string that ends in the digits of a number are truthy, and \<open>+\<close> with one
  of them concatenates strings.
\<close>

fun orZeroPlus :: "jsvalue option \<Rightarrow> rat \<Rightarrow> jsvalue" where
  "orZeroPlus None seconds = Number (0 + seconds)"
| "orZeroPlus (Some (Number v)) seconds = Number ((if v = 0 then 0 else v) + seconds)"
| "orZeroPlus (Some (Concat a b)) seconds = Concat (Concat a b) seconds"
| "orZeroPlus (Some (Inherited k)) seconds = Concat (Inherited k) seconds"

definition addTime :: "date \<Rightarrow> jsstring \<Rightarrow> rat \<Rightarrow> ledger \<Rightarrow> ledger" where
  "addTime today projectName seconds timeData =
     (let day = todayKey today;
          dayObject = (case map_of timeData day of None \<Rightarrow> [] | Some obj \<Rightarrow> obj)
      in AList.update day
           (setProp dayObject projectName (orZeroPlus (getProp dayObject projectName) seconds))
           timeData)"

text \<open>
  \<open>pruneOldData\<close>. \<open>cutoff\<close> is the date that the \<open>Date\<close> object of that name stands
  for after \<open>setDate\<close> has moved it back by \<open>keepDays\<close> days; the loop goes through
  \<open>Object.keys(timeData)\<close>.
\<close>

definition pruneOldData :: "date \<Rightarrow> ledger \<Rightarrow> ledger" where
  "pruneOldData cutoff timeData =
     (let cutoffStr = toISODate cutoff
      in fold (\<lambda>dateKey td. if jsLess dateKey cutoffStr then AList.delete dateKey td else td)
           (map fst timeData) timeData)"

text \<open>Reading the ledger: the own property of a day's object, and the seconds it holds.\<close>

definition readEntry :: "ledger \<Rightarrow> jsstring \<Rightarrow> jsstring \<Rightarrow> jsvalue option" where
  "readEntry timeData day projectName =
     (case map_of timeData day of None \<Rightarrow> None | Some obj \<Rightarrow> map_of obj projectName)"

fun numericEntry :: "jsvalue option \<Rightarrow> bool" where
  "numericEntry None = True"
| "numericEntry (Some (Number v)) = True"
| "numericEntry (Some (Concat a b)) = False"
| "numericEntry (Some (Inherited k)) = False"

fun secondsOf :: "jsvalue option \<Rightarrow> rat" where
  "secondsOf (Some (Number v)) = v"
| "secondsOf other = 0"

section \<open>The time accounting state machine (background.js)\<close>

text \<open>
  The module variables of the service worker and the parts of \<open>chrome.storage\<close> that
  the tracker reads and writes. \<open>None\<close> is \<open>null\<close>. Timestamps are the milliseconds of
  \<open>Date.now()\<close>.
\<close>

record world =
  activeProjectName :: "jsstring option"
  activeTabStartTime :: "int option"
  isUserIdle :: bool
  timeData :: ledger
  trackingPaused :: bool
  projects :: "project list"

text \<open>
  \<open>flushActiveTime\<close> reads the clock three times: \<open>now1\<close> for the elapsed time,
  \<open>today\<close> inside \<open>addTime\<close> for the day key, \<open>now2\<close> for the new start time. The
  guard \<open>activeProjectName && activeTabStartTime\<close> is false for \<open>null\<close>, for the empty
  name and for the timestamp 0.
\<close>

definition flushActiveTime :: "int \<Rightarrow> date \<Rightarrow> int \<Rightarrow> world \<Rightarrow> world" where
  "flushActiveTime now1 today now2 w =
     (let w1 =
        (case activeProjectName w of
           None \<Rightarrow> w
         | Some projectName \<Rightarrow>
             (case activeTabStartTime w of
                None \<Rightarrow> w
              | Some start \<Rightarrow>
                  if projectName \<noteq> [] \<and> start \<noteq> 0 then
                    (let elapsed = (of_int (now1 - start) :: rat) / 1000
                     in if elapsed > 1
                        then w\<lparr>timeData := addTime today projectName elapsed (timeData w)\<rparr>
                        else w)
                  else w))
      in w1\<lparr>activeTabStartTime := Some now2\<rparr>)"

text \<open>
  What \<open>chrome.tabs.get\<close> answers; \<open>None\<close> for a property that is absent or empty is
  written out where the code tests it.
\<close>

record tab =
  url :: "jsstring option"
  title :: "jsstring option"

definition uncategorized :: jsstring where
  "uncategorized = js ''Uncategorized''"

fun startsWith :: "jsstring \<Rightarrow> jsstring \<Rightarrow> bool" where
  "startsWith s [] = True"
| "startsWith [] (p # ps) = False"
| "startsWith (c # cs) (p # ps) = (c = p \<and> startsWith cs ps)"

text \<open>
  \<open>startTrackingTab\<close>. \<open>tabResult\<close> is \<open>None\<close> when \<open>chrome.tabs.get\<close> rejects; that
  and an exception of \<open>matchTabToProject\<close> end in the \<open>catch\<close>. \<open>now3\<close> is the clock
  at the last line.
\<close>

definition startTrackingTab ::
  "(jschar \<Rightarrow> jschar) \<Rightarrow> int \<Rightarrow> date \<Rightarrow> int \<Rightarrow> tab option \<Rightarrow> int \<Rightarrow> world \<Rightarrow> world" where
  "startTrackingTab tbl now1 today now2 tabResult now3 w =
     (if trackingPaused w \<or> isUserIdle w then w
      else
        (let w1 = flushActiveTime now1 today now2 w;
             resolved =
               (case tabResult of
                  None \<Rightarrow> uncategorized
                | Some t \<Rightarrow>
                    (case url t of
                       None \<Rightarrow> uncategorized
                     | Some u \<Rightarrow>
                         if u = [] \<or> startsWith u (js ''chrome://'') then uncategorized
                         else
                           (case matchTabToProject tbl u
                                   (case title t of None \<Rightarrow> [] | Some ti \<Rightarrow> ti) (projects w1) of
                              Inl e \<Rightarrow> uncategorized
                            | Inr None \<Rightarrow> uncategorized
                            | Inr (Some matched) \<Rightarrow> name matched)))
         in w1\<lparr>activeProjectName := Some resolved, activeTabStartTime := Some now3\<rparr>))"

text \<open>
  The listener of \<open>chrome.idle.onStateChanged\<close> for the states \<open>idle\<close> and \<open>locked\<close>,
  which is the same as the one for all windows losing focus but for the flag: flush,
  then close the interval.
\<close>

definition onIdle :: "int \<Rightarrow> date \<Rightarrow> int \<Rightarrow> world \<Rightarrow> world" where
  "onIdle now1 today now2 w =
     (flushActiveTime now1 today now2 (w\<lparr>isUserIdle := True\<rparr>))
       \<lparr>activeProjectName := None, activeTabStartTime := None\<rparr>"

section \<open>Inputs for the examples\<close>

definition day0 :: date where
  "day0 = \<lparr>year = 2026, month = 8, dayOfMonth = 5\<rparr>"

definition idleWorld :: world where
  "idleWorld = \<lparr>activeProjectName = None, activeTabStartTime = None, isUserIdle = False,
                 timeData = [], trackingPaused = False, projects = []\<rparr>"

definition pausedWorld :: world where
  "pausedWorld = \<lparr>activeProjectName = Some (js ''A''), activeTabStartTime = Some 1000,
                   isUserIdle = False, timeData = [], trackingPaused = True, projects = []\<rparr>"

definition trackingWorld :: world where
  "trackingWorld = \<lparr>activeProjectName = Some (js ''A''), activeTabStartTime = Some 1000,
                     isUserIdle = False, timeData = [], trackingPaused = False, projects = []\<rparr>"

definition constructorWorld :: world where
  "constructorWorld = \<lparr>activeProjectName = Some (js ''constructor''),
                        activeTabStartTime = Some 1000, isUserIdle = False, timeData = [],
                        trackingPaused = False, projects = []\<rparr>"

definition ledger0 :: ledger where
  "ledger0 = [(js ''2026-08-04'', [(js ''A'', Number 10)]),
              (js ''2026-08-05'', [(js ''A'', Number 20)])]"

section \<open>Facts about the characters\<close>

lemmas char_defs =
  backslash_def dot_def star_def qmark_def plusSign_def caret_def dollar_def lbrace_def
  rbrace_def lparen_def rparen_def pipe_def lbrack_def rbrack_def slash_def

section \<open>The matcher on patterns without a question mark\<close>

lemma parseQuantifier_none:
  "s = [] \<or> (hd s \<noteq> star \<and> hd s \<noteq> qmark) \<Longrightarrow> parseQuantifier s = (One, s)"
  by (cases s rule: parseQuantifier.cases) auto

lemma parseQuantifier_star:
  "s = [] \<or> hd s \<noteq> qmark \<Longrightarrow> parseQuantifier (star # s) = (Star True, s)"
  by (cases s) auto

lemma compiled_head:
  "qmark \<notin> set p \<Longrightarrow> starToAny (escapeSpecial p) = [] \<or>
     (hd (starToAny (escapeSpecial p)) \<noteq> star \<and> hd (starToAny (escapeSpecial p)) \<noteq> qmark)"
  by (cases p) (auto simp: char_defs escapeClass_def)

lemma escapeClass_syntax: "c \<in> set escapeClass \<Longrightarrow> syntaxCharacter c"
  by (auto simp: escapeClass_def syntaxCharacter_def)

lemma syntax_cases:
  "syntaxCharacter c \<longleftrightarrow> c \<in> set escapeClass \<or> c = star \<or> c = qmark"
  by (auto simp: escapeClass_def syntaxCharacter_def)

lemma escapeClass_not_star: "c \<in> set escapeClass \<Longrightarrow> c \<noteq> star \<and> c \<noteq> qmark"
  by (auto simp: escapeClass_def char_defs)

lemma compile_plain:
  "qmark \<notin> set p \<Longrightarrow> parseTerms (starToAny (escapeSpecial p)) = Inr (map wildcardTerm p)"
proof (induction p)
  case Nil
  then show ?case by simp
next
  case (Cons c p)
  let ?rest = "starToAny (escapeSpecial p)"
  from Cons.prems have nq: "qmark \<notin> set p" and cq: "c \<noteq> qmark" by auto
  have rest: "parseTerms ?rest = Inr (map wildcardTerm p)" using Cons.IH nq by simp
  have q1: "parseQuantifier ?rest = (One, ?rest)"
    using compiled_head [OF nq] by (rule parseQuantifier_none)
  have q2: "parseQuantifier (star # ?rest) = (Star True, ?rest)"
    using compiled_head [OF nq] by (intro parseQuantifier_star) auto
  show ?case
  proof (cases "c \<in> set escapeClass")
    case True
    then have "c \<noteq> star" using escapeClass_not_star by blast
    moreover have "backslash \<noteq> star" "backslash \<noteq> qmark" by (simp_all add: char_defs)
    ultimately show ?thesis
      using True rest q1 escapeClass_syntax [OF True] by (simp add: wildcardTerm_def)
  next
    case False
    show ?thesis
    proof (cases "c = star")
      case True
      have "dot \<noteq> star" "dot \<noteq> qmark" "dot \<noteq> backslash" by (simp_all add: char_defs)
      then show ?thesis
        using True False rest q2 by (simp add: wildcardTerm_def)
    next
      case cs: False
      have "\<not> syntaxCharacter c" using False cs cq by (simp add: syntax_cases)
      moreover have "c \<noteq> backslash" "c \<noteq> dot" using False by (auto simp: escapeClass_def)
      ultimately show ?thesis
        using False cs cq rest q1 by (simp add: wildcardTerm_def)
    qed
  qed
qed

lemma orElse_None: "orElse a b \<noteq> None \<longleftrightarrow> a \<noteq> None \<or> b \<noteq> None"
  by (cases a) auto

lemma matchEnd_star_Cons:
  "matchEnd tbl (Term a (Star g) # ts) (c # cs) \<noteq> None \<longleftrightarrow>
     matchEnd tbl ts (c # cs) \<noteq> None \<or>
     (atomMatches tbl a c \<and> matchEnd tbl (Term a (Star g) # ts) cs \<noteq> None)"
  by (simp add: orElse_None del: not_None_eq) blast

lemma matchEnd_wildcard:
  "matchEnd tbl (map wildcardTerm p) s \<noteq> None \<longleftrightarrow>
     (\<exists>mid suf. s = mid @ suf \<and> wildcardMatches tbl p mid)"
proof (induction tbl p s rule: wildcardMatches.induct)
  case (1 tbl t)
  then show ?case by simp
next
  case (2 tbl c p)
  then show ?case by (auto simp: wildcardTerm_def)
next
  case (3 tbl c p d t)
  show ?case
  proof (cases "c = star")
    case True
    have "matchEnd tbl (map wildcardTerm (c # p)) (d # t) \<noteq> None \<longleftrightarrow>
            matchEnd tbl (map wildcardTerm p) (d # t) \<noteq> None \<or>
            (\<not> lineTerminator d \<and> matchEnd tbl (map wildcardTerm (c # p)) t \<noteq> None)"
      using True matchEnd_star_Cons [of tbl AnyChar True "map wildcardTerm p" d t]
      by (simp add: wildcardTerm_def del: matchEnd.simps not_None_eq)
    also have "\<dots> \<longleftrightarrow> (\<exists>mid suf. d # t = mid @ suf \<and> wildcardMatches tbl p mid) \<or>
            (\<not> lineTerminator d \<and> (\<exists>mid suf. t = mid @ suf \<and> wildcardMatches tbl (c # p) mid))"
      using 3 True by simp
    also have "\<dots> \<longleftrightarrow> (\<exists>mid suf. d # t = mid @ suf \<and> wildcardMatches tbl (c # p) mid)"
      (is "?L \<longleftrightarrow> ?R")
    proof
      assume ?L
      then show ?R
      proof
        assume "\<exists>mid suf. d # t = mid @ suf \<and> wildcardMatches tbl p mid"
        then obtain mid suf where m: "d # t = mid @ suf" "wildcardMatches tbl p mid" by blast
        then have "wildcardMatches tbl (c # p) mid" using True by (cases mid) auto
        with m show ?R by blast
      next
        assume "\<not> lineTerminator d \<and> (\<exists>mid suf. t = mid @ suf \<and> wildcardMatches tbl (c # p) mid)"
        then obtain mid suf where m: "\<not> lineTerminator d" "t = mid @ suf" "wildcardMatches tbl (c # p) mid"
          by blast
        then have "d # t = (d # mid) @ suf" "wildcardMatches tbl (c # p) (d # mid)"
          using True by auto
        then show ?R by blast
      qed
    next
      assume ?R
      then obtain mid suf where m: "d # t = mid @ suf" "wildcardMatches tbl (c # p) mid" by blast
      show ?L
      proof (cases mid)
        case Nil
        then have "wildcardMatches tbl p []" using m True by simp
        moreover have "d # t = [] @ (d # t)" by simp
        ultimately show ?thesis by blast
      next
        case (Cons e mid')
        then have e: "e = d" "t = mid' @ suf" using m by auto
        from m Cons True have "wildcardMatches tbl p (d # mid') \<or>
            (\<not> lineTerminator d \<and> wildcardMatches tbl (c # p) mid')" using e by simp
        then show ?thesis
        proof
          assume "wildcardMatches tbl p (d # mid')"
          moreover have "d # t = (d # mid') @ suf" using e by simp
          ultimately show ?thesis by blast
        next
          assume "\<not> lineTerminator d \<and> wildcardMatches tbl (c # p) mid'"
          then show ?thesis using e by blast
        qed
      qed
    qed
    finally show ?thesis .
  next
    case False
    have "matchEnd tbl (map wildcardTerm (c # p)) (d # t) \<noteq> None \<longleftrightarrow>
            canonicalize tbl c = canonicalize tbl d \<and>
            matchEnd tbl (map wildcardTerm p) t \<noteq> None"
      using False by (simp add: wildcardTerm_def del: not_None_eq)
    also have "\<dots> \<longleftrightarrow> canonicalize tbl c = canonicalize tbl d \<and>
            (\<exists>mid suf. t = mid @ suf \<and> wildcardMatches tbl p mid)"
      using 3 False by simp
    also have "\<dots> \<longleftrightarrow> (\<exists>mid suf. d # t = mid @ suf \<and> wildcardMatches tbl (c # p) mid)"
      (is "?L \<longleftrightarrow> ?R")
    proof
      assume ?L
      then obtain mid suf where m: "canonicalize tbl c = canonicalize tbl d" "t = mid @ suf"
        "wildcardMatches tbl p mid" by blast
      then have "d # t = (d # mid) @ suf" "wildcardMatches tbl (c # p) (d # mid)"
        using False by auto
      then show ?R by blast
    next
      assume ?R
      then obtain mid suf where m: "d # t = mid @ suf" "wildcardMatches tbl (c # p) mid" by blast
      then obtain mid' where mid: "mid = d # mid'" "t = mid' @ suf"
        using False by (cases mid) auto
      then have "canonicalize tbl c = canonicalize tbl d" "wildcardMatches tbl p mid'"
        using m False by auto
      then show ?L using mid by blast
    qed
    finally show ?thesis .
  qed
qed

lemma regexTest_search:
  "regexTest tbl re s \<longleftrightarrow> (\<exists>pre rest. s = pre @ rest \<and> matchEnd tbl re rest \<noteq> None)"
proof (induction s)
  case Nil
  then show ?case by simp
next
  case (Cons c s)
  show ?case
  proof
    assume "regexTest tbl re (c # s)"
    then consider "matchEnd tbl re (c # s) \<noteq> None" | "regexTest tbl re s" by auto
    then show "\<exists>pre rest. c # s = pre @ rest \<and> matchEnd tbl re rest \<noteq> None"
    proof cases
      case 1
      moreover have "c # s = [] @ (c # s)" by simp
      ultimately show ?thesis by blast
    next
      case 2
      then obtain pre rest where "s = pre @ rest" "matchEnd tbl re rest \<noteq> None"
        using Cons.IH by blast
      moreover from this have "c # s = (c # pre) @ rest" by simp
      ultimately show ?thesis by blast
    qed
  next
    assume "\<exists>pre rest. c # s = pre @ rest \<and> matchEnd tbl re rest \<noteq> None"
    then obtain pre rest where pr: "c # s = pre @ rest" "matchEnd tbl re rest \<noteq> None" by blast
    show "regexTest tbl re (c # s)"
    proof (cases pre)
      case Nil
      then have "matchEnd tbl re (c # s) \<noteq> None" using pr by auto
      then show ?thesis by simp
    next
      case (Cons e pre')
      then have "s = pre' @ rest" using pr by simp
      then show ?thesis using pr Cons.IH by auto
    qed
  qed
qed

lemma wildcard_literal:
  "star \<notin> set p \<Longrightarrow>
     wildcardMatches tbl p t \<longleftrightarrow> map (canonicalize tbl) t = map (canonicalize tbl) p"
  by (induction tbl p t rule: wildcardMatches.induct) auto

lemma textMatchesPattern_plain:
  assumes "qmark \<notin> set p"
  shows "textMatchesPattern tbl t p =
     Inr (\<exists>pre mid suf. t = pre @ mid @ suf \<and> wildcardMatches tbl p mid)"
proof -
  have "textMatchesPattern tbl t p = Inr (regexTest tbl (map wildcardTerm p) t)"
    unfolding textMatchesPattern_def Let_def compile_plain [OF assms] by (simp only: sum.case)
  moreover have "regexTest tbl (map wildcardTerm p) t \<longleftrightarrow>
      (\<exists>pre mid suf. t = pre @ mid @ suf \<and> wildcardMatches tbl p mid)"
    unfolding regexTest_search matchEnd_wildcard by blast
  ultimately show ?thesis by simp
qed


section \<open>Every source the program builds is in the fragment\<close>

lemma compiled_head_general:
  "starToAny (escapeSpecial p) = d # r \<Longrightarrow> d \<noteq> star \<and> (d = qmark \<longrightarrow> (\<exists>p'. p = qmark # p' \<and> r = starToAny (escapeSpecial p')))"
  by (cases p) (auto simp: escapeClass_def char_defs split: if_splits)

lemma parseQuantifier_compiled:
  "\<exists>p'. length p' \<le> length p \<and>
     snd (parseQuantifier (starToAny (escapeSpecial p))) = starToAny (escapeSpecial p')"
proof (cases "starToAny (escapeSpecial p)")
  case Nil
  then show ?thesis by (intro exI [of _ p]) simp
next
  case (Cons d r)
  note h = compiled_head_general [OF Cons]
  show ?thesis
  proof (cases "d = qmark")
    case False
    then have "parseQuantifier (d # r) = (One, d # r)"
      using h by (intro parseQuantifier_none) simp
    then show ?thesis using Cons by (intro exI [of _ p]) simp
  next
    case True
    then obtain p1 where p1: "p = qmark # p1" "r = starToAny (escapeSpecial p1)" using h by blast
    show ?thesis
    proof (cases r)
      case Nil
      then show ?thesis using Cons True p1 by (intro exI [of _ p1]) simp
    next
      case (Cons e r')
      note h' = compiled_head_general [OF Cons [unfolded p1(2)]]
      show ?thesis
      proof (cases "e = qmark")
        case True
        then obtain p2 where p2: "p1 = qmark # p2" "r' = starToAny (escapeSpecial p2)"
          using h' by blast
        have "qmark \<noteq> star" by (simp add: char_defs)
        then have "snd (parseQuantifier (starToAny (escapeSpecial p))) = r'"
          using \<open>starToAny (escapeSpecial p) = d # r\<close> \<open>d = qmark\<close> Cons True by simp
        then show ?thesis using p1 p2 by (intro exI [of _ p2]) simp
      next
        case False
        have "qmark \<noteq> star" by (simp add: char_defs)
        then have "snd (parseQuantifier (starToAny (escapeSpecial p))) = r"
          using \<open>starToAny (escapeSpecial p) = d # r\<close> \<open>d = qmark\<close> Cons False by simp
        then show ?thesis using p1 by (intro exI [of _ p1]) simp
      qed
    qed
  qed
qed

lemma parseQuantifier_star_compiled:
  "\<exists>p'. length p' \<le> length p \<and>
     snd (parseQuantifier (star # starToAny (escapeSpecial p))) = starToAny (escapeSpecial p')"
proof (cases "starToAny (escapeSpecial p)")
  case Nil
  then show ?thesis by (intro exI [of _ p]) simp
next
  case (Cons d r)
  note h = compiled_head_general [OF Cons]
  show ?thesis
  proof (cases "d = qmark")
    case False
    then show ?thesis using Cons by (intro exI [of _ p]) simp
  next
    case True
    then obtain p1 where p1: "p = qmark # p1" "r = starToAny (escapeSpecial p1)" using h by blast
    then show ?thesis using Cons True by (intro exI [of _ p1]) simp
  qed
qed

lemma compile_in_fragment:
  "parseTerms (starToAny (escapeSpecial p)) \<noteq> Inl Unmodelled"
proof (induction p rule: length_induct)
  case (1 p)
  show ?case
  proof (cases p)
    case Nil
    then show ?thesis by simp
  next
    case (Cons c p1)
    let ?rest = "starToAny (escapeSpecial p1)"
    have IH: "parseTerms (starToAny (escapeSpecial p')) \<noteq> Inl Unmodelled"
      if "length p' \<le> length p1" for p'
      using 1 that Cons by simp
    obtain pa where pa: "length pa \<le> length p1"
      "snd (parseQuantifier ?rest) = starToAny (escapeSpecial pa)"
      using parseQuantifier_compiled by blast
    obtain pb where pb: "length pb \<le> length p1"
      "snd (parseQuantifier (star # ?rest)) = starToAny (escapeSpecial pb)"
      using parseQuantifier_star_compiled by blast
    have ra: "parseTerms (snd (parseQuantifier ?rest)) \<noteq> Inl Unmodelled"
      using IH [OF pa(1)] pa(2) by simp
    have rb: "parseTerms (snd (parseQuantifier (star # ?rest))) \<noteq> Inl Unmodelled"
      using IH [OF pb(1)] pb(2) by simp
    have lift: "(case r of Inl e \<Rightarrow> Inl e | Inr ts \<Rightarrow> Inr (f ts)) \<noteq> Inl Unmodelled"
      if "r \<noteq> Inl Unmodelled" for r :: "error + regex" and f :: "regex \<Rightarrow> regex"
      using that by (cases r) auto
    show ?thesis
    proof (cases "c \<in> set escapeClass")
      case True
      have src: "starToAny (escapeSpecial p) = backslash # c # ?rest"
        using True Cons by (auto simp: escapeClass_def char_defs)
      have "backslash \<noteq> star" "backslash \<noteq> qmark" by (simp_all add: char_defs)
      then have "parseTerms (backslash # c # ?rest) =
          (case parseTerms (snd (parseQuantifier ?rest)) of Inl e \<Rightarrow> Inl e
           | Inr ts \<Rightarrow> Inr (Term (Lit c) (fst (parseQuantifier ?rest)) # ts))"
        using escapeClass_syntax [OF True] by simp
      then show ?thesis using lift [OF ra] src by simp
    next
      case False
      show ?thesis
      proof (cases "c = star")
        case True
        have src: "starToAny (escapeSpecial p) = dot # star # ?rest"
          using True False Cons by (auto simp: escapeClass_def char_defs)
        have "dot \<noteq> star" "dot \<noteq> qmark" "dot \<noteq> backslash" by (simp_all add: char_defs)
        then have "parseTerms (dot # star # ?rest) =
          (case parseTerms (snd (parseQuantifier (star # ?rest))) of Inl e \<Rightarrow> Inl e
           | Inr ts \<Rightarrow> Inr (Term AnyChar (fst (parseQuantifier (star # ?rest))) # ts))"
          by simp
        then show ?thesis using lift [OF rb] src by simp
      next
        case cs: False
        have src: "starToAny (escapeSpecial p) = c # ?rest"
          using cs False Cons by (auto simp: escapeClass_def char_defs)
        show ?thesis
        proof (cases "c = qmark")
          case True
          then show ?thesis using src by simp
        next
          case cq: False
          have "\<not> syntaxCharacter c" using False cs cq by (simp add: syntax_cases)
          moreover have "c \<noteq> backslash" "c \<noteq> dot" using False by (auto simp: escapeClass_def)
          ultimately have "parseTerms (c # ?rest) =
            (case parseTerms (snd (parseQuantifier ?rest)) of Inl e \<Rightarrow> Inl e
             | Inr ts \<Rightarrow> Inr (Term (Lit c) (fst (parseQuantifier ?rest)) # ts))"
            using cs cq by simp
          then show ?thesis using lift [OF ra] src by simp
        qed
      qed
    qed
  qed
qed

lemma textMatchesPattern_in_fragment:
  "textMatchesPattern tbl t p \<noteq> Inl Unmodelled"
  using compile_in_fragment [of p]
  by (auto simp: textMatchesPattern_def split: sum.splits)

section \<open>The claims about the pattern matcher\<close>

lemmas eval_defs = textMatchesPattern_def js_def char_defs escapeClass_def syntaxCharacter_def
  canonicalize_def toUpperCaseUnit_def asciiTable_def lineTerminator_def

text \<open>
  Claim C1, as the code has it. The regular expression is not anchored and \<open>test\<close>
  searches: for a pattern without \<open>?\<close>, \<open>textMatchesPattern\<close> is true exactly when
  the pattern, with every \<open>*\<close> standing for any run of characters other than line
  terminators and every other character for itself (case-insensitively), covers some
  contiguous part of the text. For a pattern with neither \<open>?\<close> nor \<open>*\<close> that is: the
  text contains the pattern, case-insensitively.
\<close>

theorem textMatchesPattern_unanchored:
  "qmark \<notin> set p \<Longrightarrow>
     textMatchesPattern tbl t p =
       Inr (\<exists>pre mid suf. t = pre @ mid @ suf \<and> wildcardMatches tbl p mid) \<and>
     (star \<notin> set p \<longrightarrow>
        textMatchesPattern tbl t p =
          Inr (\<exists>pre mid suf. t = pre @ mid @ suf \<and>
                 map (canonicalize tbl) mid = map (canonicalize tbl) p))"
  by (simp add: textMatchesPattern_plain wildcard_literal)

text \<open>
  Claim C1 as stated fails: the pattern \<open>abc\<close> matches the text \<open>xabcx\<close>, which is not
  equal to it.
\<close>

theorem textMatchesPattern_anchored_counterexample:
  "textMatchesPattern asciiTable (js ''xabcx'') (js ''abc'') = Inr True \<and>
   map (canonicalize asciiTable) (js ''xabcx'') \<noteq> map (canonicalize asciiTable) (js ''abc'')"
  by (simp add: eval_defs)

theorem textMatchesPattern_unanchored_witness:
  "qmark \<notin> set (js ''abc'') \<and> star \<notin> set (js ''abc'') \<and>
   textMatchesPattern asciiTable (js ''xABCx'') (js ''abc'') = Inr True"
proof -
  have q: "qmark \<notin> set (js ''abc'')" and s: "star \<notin> set (js ''abc'')"
    by (simp_all add: js_def char_defs)
  have "js ''xABCx'' = js ''x'' @ js ''ABC'' @ js ''x''" by (simp add: js_def)
  moreover have "map (canonicalize asciiTable) (js ''ABC'') =
      map (canonicalize asciiTable) (js ''abc'')"
    by (simp add: eval_defs)
  ultimately have "\<exists>pre mid suf. js ''xABCx'' = pre @ mid @ suf \<and>
      map (canonicalize asciiTable) mid = map (canonicalize asciiTable) (js ''abc'')" by blast
  then have ex: "(\<exists>pre mid suf. js ''xABCx'' = pre @ mid @ suf \<and>
      map (canonicalize asciiTable) mid = map (canonicalize asciiTable) (js ''abc'')) = True"
    by (rule eqTrueI)
  have "textMatchesPattern asciiTable (js ''xABCx'') (js ''abc'') =
      Inr (\<exists>pre mid suf. js ''xABCx'' = pre @ mid @ suf \<and>
             map (canonicalize asciiTable) mid = map (canonicalize asciiTable) (js ''abc''))"
    using textMatchesPattern_unanchored [OF q, of asciiTable "js ''xABCx''"] s by blast
  then have "textMatchesPattern asciiTable (js ''xABCx'') (js ''abc'') = Inr True"
    by (simp only: ex)
  then show ?thesis using q s by blast
qed

text \<open>
  Claim C2 fails on the code: \<open>?\<close> is not in the class of escaped characters and stays a
  quantifier. The pattern \<open>ab?cd\<close> matches the text \<open>acd\<close>, which has no \<open>?\<close> in it,
  and does not match the text \<open>ab?cd\<close>; the pattern \<open>?\<close> raises a SyntaxError.
\<close>

theorem question_mark_not_escaped:
  "textMatchesPattern asciiTable (js ''acd'') (js ''ab?cd'') = Inr True \<and>
   textMatchesPattern asciiTable (js ''ab?cd'') (js ''ab?cd'') = Inr False \<and>
   textMatchesPattern asciiTable (js ''a'') (js ''?'') = Inl SyntaxError"
  by (simp add: eval_defs)

text \<open>
  Claim C3, as the code has it: the empty pattern matches every text, and a pattern
  without \<open>?\<close> never raises.
\<close>

theorem empty_pattern_matches_every_text:
  "textMatchesPattern tbl t [] = Inr True \<and>
   (qmark \<notin> set p \<longrightarrow> (\<exists>b. textMatchesPattern tbl t p = Inr b))"
proof
  show "textMatchesPattern tbl t [] = Inr True"
    by (cases t) (simp_all add: textMatchesPattern_def)
  show "qmark \<notin> set p \<longrightarrow> (\<exists>b. textMatchesPattern tbl t p = Inr b)"
    using textMatchesPattern_plain [of p tbl t] by blast
qed

text \<open>Claim C3 as stated fails: the empty pattern matches the text \<open>a\<close>.\<close>

theorem empty_pattern_counterexample:
  "textMatchesPattern asciiTable (js ''a'') [] = Inr True \<and> js ''a'' \<noteq> []"
  by (simp add: eval_defs)

theorem empty_pattern_matches_every_text_witness:
  "qmark \<notin> set (js ''a.b'') \<and> textMatchesPattern asciiTable (js ''xa.b'') [] = Inr True \<and>
   textMatchesPattern asciiTable (js ''xa.b'') (js ''a.b'') = Inr True"
proof -
  have q: "qmark \<notin> set (js ''a.b'')" by (simp add: js_def char_defs)
  have "textMatchesPattern asciiTable (js ''xa.b'') (js ''a.b'') = Inr True"
    by (simp add: eval_defs)
  then show ?thesis
    using empty_pattern_matches_every_text [of asciiTable "js ''xa.b''" "js ''a.b''"] q by simp
qed

section \<open>The claim about the name normalizer\<close>

lemma matchEnd_suffixRegex:
  "matchEnd tbl (suffixRegex lit) s =
     (if map (canonicalize tbl) s = map (canonicalize tbl) lit then Some [] else None)"
proof (induction lit arbitrary: s)
  case Nil
  then show ?case by (simp add: suffixRegex_def)
next
  case (Cons c lit)
  then show ?case by (cases s) (auto simp: suffixRegex_def)
qed

lemma stripSuffixCI_whole:
  "map (canonicalize tbl) s = map (canonicalize tbl) lit \<Longrightarrow> stripSuffixCI tbl lit s = []"
proof -
  assume h: "map (canonicalize tbl) s = map (canonicalize tbl) lit"
  then have "length s = length lit" by (metis length_map)
  then show ?thesis using h by (simp add: stripSuffixCI_def)
qed

lemma stripSuffixCI_Cons:
  assumes "map (canonicalize tbl) (c # cs) \<noteq> map (canonicalize tbl) lit"
  shows "stripSuffixCI tbl lit (c # cs) = c # stripSuffixCI tbl lit cs"
proof (cases "length lit \<le> length cs")
  case True
  then have "Suc (length cs) - length lit = Suc (length cs - length lit)" by simp
  then show ?thesis using True by (simp add: stripSuffixCI_def)
next
  case False
  show ?thesis
  proof (cases "length lit = Suc (length cs)")
    case True
    then show ?thesis using assms by (simp add: stripSuffixCI_def)
  next
    case f: False
    then show ?thesis using False by (simp add: stripSuffixCI_def)
  qed
qed

lemma replaceEmpty_suffix:
  "replaceEmpty tbl (suffixRegex lit) s = stripSuffixCI tbl lit s"
proof (induction s)
  case Nil
  then show ?case by (simp add: matchEnd_suffixRegex stripSuffixCI_def)
next
  case (Cons c cs)
  show ?case
  proof (cases "map (canonicalize tbl) (c # cs) = map (canonicalize tbl) lit")
    case True
    then show ?thesis
      using stripSuffixCI_whole [OF True] by (simp add: matchEnd_suffixRegex)
  next
    case False
    then show ?thesis
      using stripSuffixCI_Cons [OF False] Cons.IH by (simp add: matchEnd_suffixRegex)
  qed
qed

lemma foldl_suffixes:
  "foldl (\<lambda>primaryName suffix. replaceEmpty tbl suffix primaryName) t (map suffixRegex lits) =
   foldl (\<lambda>s lit. stripSuffixCI tbl lit s) t lits"
  by (induction lits arbitrary: t) (simp_all add: replaceEmpty_suffix)

lemma takeWhile_dropWhile_Nil: "takeWhile P (dropWhile P xs) = []"
  by (induction xs) auto

lemma trim_trailing: "takeWhile trimmable (rev (trim s)) = []"
  by (simp add: trim_def takeWhile_dropWhile_Nil)

lemma rev_dropWhile_rev_Cons:
  assumes "\<not> P y"
  shows "\<exists>zs. rev (dropWhile P (rev (y # ys))) = y # zs"
proof (cases "\<forall>x\<in>set (rev ys). P x")
  case True
  then have "dropWhile P (rev ys @ [y]) = [y]"
    using assms by (simp add: dropWhile_append)
  then show ?thesis by simp
next
  case False
  then have "dropWhile P (rev ys @ [y]) = dropWhile P (rev ys) @ [y]"
    by (auto simp: dropWhile_append)
  then show ?thesis by simp
qed

lemma trim_leading: "takeWhile trimmable (trim s) = []"
proof (cases "dropWhile trimmable s")
  case Nil
  then have "trim s = []" by (simp only: trim_def rev.simps dropWhile.simps)
  then show ?thesis by simp
next
  case (Cons y ys)
  then have "dropWhile trimmable s \<noteq> []" "hd (dropWhile trimmable s) = y" by simp_all
  then have "\<not> trimmable y" using hd_dropWhile [of trimmable s] by blast
  then obtain zs where zs: "rev (dropWhile trimmable (rev (y # ys))) = y # zs"
    using rev_dropWhile_rev_Cons [of trimmable y ys] by blast
  have "trim s = rev (dropWhile trimmable (rev (y # ys)))"
    by (simp only: trim_def Cons)
  then have "trim s = y # zs" by (simp only: zs)
  then show ?thesis using \<open>\<not> trimmable y\<close> by simp
qed

lemma extractPrimaryName_fold:
  "extractPrimaryName tbl (Some t) =
     trim (foldl (\<lambda>s lit. stripSuffixCI tbl lit s) t suffixTexts)"
proof (cases "t = []")
  case True
  have "foldl (\<lambda>s lit. stripSuffixCI tbl lit s) [] lits = []" for lits
    by (induction lits) (simp_all add: stripSuffixCI_def)
  then show ?thesis using True by (simp add: extractPrimaryName_def trim_def)
next
  case False
  then show ?thesis by (simp add: extractPrimaryName_def suffixes_def foldl_suffixes)
qed

lemmas name_defs = suffixTexts_def stripSuffixCI_def trim_def
  trimmable_def whiteSpace_def lineTerminator_def js_def canonicalize_def toUpperCaseUnit_def
  asciiTable_def

text \<open>
  Claim C4, as the code has it. The loop applies all nine suffix expressions, one after
  the other in the order of the list, each to what the ones before it have left: where
  the running result ends with the suffix (case-insensitively) the suffix is removed.
  The result is trimmed (it neither starts nor ends with white space), and an absent
  or empty title gives the empty string.
\<close>

theorem extractPrimaryName_strips_in_order:
  "extractPrimaryName tbl None = [] \<and>
   extractPrimaryName tbl (Some []) = [] \<and>
   extractPrimaryName tbl (Some t) =
     trim (foldl (\<lambda>s lit. stripSuffixCI tbl lit s) t suffixTexts) \<and>
   takeWhile trimmable (extractPrimaryName tbl ti) = [] \<and>
   takeWhile trimmable (rev (extractPrimaryName tbl ti)) = []"
proof -
  have b: "takeWhile trimmable (extractPrimaryName tbl ti) = []"
    by (cases ti) (simp_all add: extractPrimaryName_def trim_leading)
  have c: "takeWhile trimmable (rev (extractPrimaryName tbl ti)) = []"
    by (cases ti) (simp_all add: extractPrimaryName_def trim_trailing)
  show ?thesis using extractPrimaryName_fold [of tbl t] b c by (simp add: extractPrimaryName_def)
qed

text \<open>
  Claim C4 as stated fails: of the title \<open>A - Google Docs - Google Drive\<close> two suffixes
  are removed in one call, not one.
\<close>

theorem extractPrimaryName_two_suffixes_counterexample:
  "extractPrimaryName asciiTable (Some (js ''A - Google Docs - Google Drive'')) = js ''A'' \<and>
   js ''A'' \<noteq> js ''A - Google Docs''"
  by (simp add: extractPrimaryName_fold name_defs)

section \<open>The claim about the resolver\<close>

lemma scanPatterns_never: "scanPatterns (\<lambda>pattern. Inr False) ps = Inr False"
  by (induction ps) simp_all

lemma scanProjects_never: "scanProjects (\<lambda>pattern. Inr False) prs = Inr None"
  by (induction prs) (simp_all add: scanPatterns_never split: option.splits)

lemma scanProjects_guarded:
  "scanProjects (\<lambda>pattern. if cond then f pattern else Inr False) prs =
     (if cond then scanProjects f prs else Inr None)"
  by (cases cond) (simp_all add: scanProjects_never)

lemma scanPatterns_plain:
  "(\<forall>p\<in>set ps. test p = Inr (hit p)) \<Longrightarrow> scanPatterns test ps = Inr (list_ex hit ps)"
  by (induction ps) auto

lemma scanProjects_plain:
  assumes "\<forall>proj\<in>set prs. \<forall>ps. patterns proj = Some ps \<longrightarrow> (\<forall>p\<in>set ps. test p = Inr (hit p))"
  shows "scanProjects test prs =
           Inr (find (\<lambda>proj. case patterns proj of None \<Rightarrow> False | Some ps \<Rightarrow> list_ex hit ps) prs)"
  using assms
proof (induction prs)
  case Nil
  then show ?case by simp
next
  case (Cons proj prs)
  then have IH: "scanProjects test prs =
      Inr (find (\<lambda>proj. case patterns proj of None \<Rightarrow> False | Some ps \<Rightarrow> list_ex hit ps) prs)"
    by simp
  show ?case
  proof (cases "patterns proj")
    case None
    then show ?thesis using IH by simp
  next
    case (Some ps)
    then have "\<forall>p\<in>set ps. test p = Inr (hit p)" using Cons.prems by simp
    then have sp: "scanPatterns test ps = Inr (list_ex hit ps)" by (rule scanPatterns_plain)
    show ?thesis
    proof (cases ps)
      case Nil
      then show ?thesis using Some IH by simp
    next
      case (Cons q qs)
      then have "0 < length ps" by simp
      then show ?thesis using Some IH sp by (simp del: scanPatterns.simps)
    qed
  qed
qed

text \<open>
  For rules whose patterns have no \<open>?\<close> the three passes are as the specification has
  them: each pass finds the first rule, in list order, one of whose patterns matches
  (a rule without patterns never does); the first pass is left out for an empty primary
  name, the second for a title that is empty or equal to the primary name, and a hit of
  an earlier pass decides.
\<close>

lemma matchTabToProject_plain:
  assumes "\<forall>proj\<in>set rules. \<forall>ps. patterns proj = Some ps \<longrightarrow> (\<forall>p\<in>set ps. qmark \<notin> set p)"
  shows "matchTabToProject tbl u ti rules =
     Inr (let pn = extractPrimaryName tbl (Some ti);
              pass = (\<lambda>x. find (\<lambda>proj. case patterns proj of None \<Rightarrow> False
                                     | Some ps \<Rightarrow> list_ex (\<lambda>p. regexTest tbl (map wildcardTerm p) x) ps)
                                rules)
          in case (if pn \<noteq> [] then pass pn else None) of
               Some proj \<Rightarrow> Some proj
             | None \<Rightarrow>
                 (case (if ti \<noteq> [] \<and> ti \<noteq> pn then pass ti else None) of
                    Some proj \<Rightarrow> Some proj
                  | None \<Rightarrow> pass u))"
proof -
  have t: "textMatchesPattern tbl x p = Inr (regexTest tbl (map wildcardTerm p) x)"
    if "qmark \<notin> set p" for x p
    unfolding textMatchesPattern_def Let_def compile_plain [OF that] by (simp only: sum.case)
  have scan: "scanProjects (\<lambda>pattern. textMatchesPattern tbl x pattern) rules =
      Inr (find (\<lambda>proj. case patterns proj of None \<Rightarrow> False
                  | Some ps \<Rightarrow> list_ex (\<lambda>p. regexTest tbl (map wildcardTerm p) x) ps) rules)" for x
    using assms t by (intro scanProjects_plain) auto
  show ?thesis
    unfolding matchTabToProject_def Let_def scanProjects_guarded scan
    by (auto split: option.splits)
qed

lemmas rule_defs = ruleBad_def ruleGood_def ruleQuestions_def

text \<open>
  Claim C5 fails on the code where a pattern raises (the \<open>?\<close> of C2). With the title
  \<open>R\<close> (which is its own primary name) and the URL \<open>q\<close>, the rule \<open>Good\<close> matches
  the primary name and is returned when it stands alone; behind the rule \<open>Bad\<close>, whose
  pattern \<open>z\<close> does not match and whose pattern \<open>?\<close> raises, it is not returned: the
  resolver raises. With the only rule that of the project \<open>??\<close>, no pattern matches
  and the resolver raises instead of returning none.
\<close>

theorem matchTabToProject_raises:
  "extractPrimaryName asciiTable (Some (js ''R'')) = js ''R'' \<and>
   textMatchesPattern asciiTable (js ''R'') (js ''r'') = Inr True \<and>
   matchTabToProject asciiTable (js ''q'') (js ''R'') [ruleGood] = Inr (Some ruleGood) \<and>
   matchTabToProject asciiTable (js ''q'') (js ''R'') [ruleBad, ruleGood] = Inl SyntaxError \<and>
   textMatchesPattern asciiTable (js ''R'') (js ''z'') = Inr False \<and>
   matchTabToProject asciiTable (js ''q'') (js ''R'') [ruleQuestions] = Inl SyntaxError"
proof -
  have pn: "extractPrimaryName asciiTable (Some (js ''R'')) = js ''R''"
    by (simp add: extractPrimaryName_fold name_defs)
  have ne: "js ''R'' \<noteq> []" by (simp add: js_def)
  have t1: "textMatchesPattern asciiTable (js ''R'') (js ''r'') = Inr True"
    and t2: "textMatchesPattern asciiTable (js ''R'') (js ''z'') = Inr False"
    and t3: "textMatchesPattern asciiTable (js ''R'') (js ''?'') = Inl SyntaxError"
    and t4: "textMatchesPattern asciiTable (js ''R'') (js ''*??*'') = Inl SyntaxError"
    by (simp_all add: eval_defs)
  have a: "matchTabToProject asciiTable (js ''q'') (js ''R'') [ruleGood] = Inr (Some ruleGood)"
    by (simp add: matchTabToProject_def pn ne t1 rule_defs)
  have b: "matchTabToProject asciiTable (js ''q'') (js ''R'') [ruleBad, ruleGood] = Inl SyntaxError"
    by (simp add: matchTabToProject_def pn ne t2 t3 rule_defs)
  have c: "matchTabToProject asciiTable (js ''q'') (js ''R'') [ruleQuestions] = Inl SyntaxError"
    by (simp add: matchTabToProject_def pn ne t4 rule_defs)
  show ?thesis using pn t1 t2 a b c by simp
qed

section \<open>Day keys and their order\<close>

lemma jsLess_irrefl: "\<not> jsLess k k"
  by (induction k) auto

lemma map_of_prune_fold:
  "map_of (fold (\<lambda>dateKey td. if jsLess dateKey c then AList.delete dateKey td else td) ks td) k =
     (if jsLess k c \<and> k \<in> set ks then None else map_of td k)"
proof (induction ks arbitrary: td)
  case Nil
  then show ?case by simp
next
  case (Cons a ks)
  show ?case
  proof (cases "jsLess a c")
    case True
    then show ?thesis using Cons [of "AList.delete a td"]
      by (auto simp: AList.delete_conv')
  next
    case False
    then show ?thesis using Cons [of td] by auto
  qed
qed

lemma map_of_pruneOldData:
  "map_of (pruneOldData cutoff td) k =
     (if jsLess k (toISODate cutoff) then None else map_of td k)"
proof -
  have "k \<notin> set (map fst td) \<Longrightarrow> map_of td k = None"
    by (simp add: map_of_eq_None_iff)
  then show ?thesis
    by (auto simp: pruneOldData_def Let_def map_of_prune_fold)
qed

lemma digitChar_less: "a < 10 \<Longrightarrow> b < 10 \<Longrightarrow> digitChar a < digitChar b \<longleftrightarrow> a < b"
  by (simp add: digitChar_def)

lemma digitChar_eq: "a < 10 \<Longrightarrow> b < 10 \<Longrightarrow> digitChar a = digitChar b \<longleftrightarrow> a = b"
  by (simp add: digitChar_def)

lemma jsLess_append_same_length:
  "length xs = length ys \<Longrightarrow>
     jsLess (xs @ us) (ys @ vs) \<longleftrightarrow> jsLess xs ys \<or> (xs = ys \<and> jsLess us vs)"
  by (induction xs ys rule: list_induct2) auto

lemma lex_div_mod:
  fixes a b k :: nat
  shows "(a div k < b div k \<or> (a div k = b div k \<and> a mod k < b mod k)) \<longleftrightarrow> a < b"
proof
  assume "a div k < b div k \<or> (a div k = b div k \<and> a mod k < b mod k)"
  then show "a < b"
  proof
    assume "a div k < b div k"
    moreover have "b \<le> a \<Longrightarrow> b div k \<le> a div k" by (rule div_le_mono)
    ultimately have "\<not> b \<le> a" by auto
    then show ?thesis by simp
  next
    assume h: "a div k = b div k \<and> a mod k < b mod k"
    have "a = k * (a div k) + a mod k" "b = k * (b div k) + b mod k" by simp_all
    then show ?thesis using h by (metis add_less_cancel_left)
  qed
next
  assume ab: "a < b"
  then have le: "a div k \<le> b div k" by (simp add: div_le_mono)
  show "a div k < b div k \<or> (a div k = b div k \<and> a mod k < b mod k)"
  proof (cases "a div k = b div k")
    case True
    have "a = k * (a div k) + a mod k" "b = k * (b div k) + b mod k" by simp_all
    then have "a mod k < b mod k" using True ab by (metis add_less_cancel_left)
    then show ?thesis using True by simp
  next
    case False
    then show ?thesis using le by simp
  qed
qed

lemma eq_div_mod:
  fixes a b k :: nat
  shows "(a div k = b div k \<and> a mod k = b mod k) \<longleftrightarrow> a = b"
  by (metis div_mult_mod_eq)

lemma pad2_conv: "a < 100 \<Longrightarrow> pad2 a = [0x30 + a div 10, 0x30 + a mod 10]"
  by (simp add: pad2_def digitChar_def)

lemma pad2_less: "a < 100 \<Longrightarrow> b < 100 \<Longrightarrow> jsLess (pad2 a) (pad2 b) \<longleftrightarrow> a < b"
  using lex_div_mod [of a 10 b] by (simp add: pad2_conv)

lemma pad2_eq: "a < 100 \<Longrightarrow> b < 100 \<Longrightarrow> pad2 a = pad2 b \<longleftrightarrow> a = b"
  using eq_div_mod [of a 10 b] by (simp add: pad2_conv)

lemma pad2_length: "length (pad2 a) = 2"
  by (simp add: pad2_def)

lemma pad2_mod: "pad2 a = pad2 (a mod 100)"
proof -
  have "a mod (10 * 10) = 10 * (a div 10 mod 10) + a mod 10"
    by (rule mod_mult2_eq)
  then have "a mod 100 div 10 = a div 10 mod 10" by simp
  moreover have "a mod 100 mod 10 = a mod 10" by (simp add: mod_mod_cancel)
  ultimately show ?thesis by (simp add: pad2_def digitChar_def)
qed

lemma pad4_less: "a < 10000 \<Longrightarrow> b < 10000 \<Longrightarrow> jsLess (pad4 a) (pad4 b) \<longleftrightarrow> a < b"
proof -
  assume a: "a < 10000" and b: "b < 10000"
  have d: "a div 100 < 100" "b div 100 < 100" using a b by simp_all
  have m: "a mod 100 < 100" "b mod 100 < 100" by simp_all
  have "jsLess (pad4 a) (pad4 b) \<longleftrightarrow>
      jsLess (pad2 (a div 100)) (pad2 (b div 100)) \<or>
      (pad2 (a div 100) = pad2 (b div 100) \<and> jsLess (pad2 (a mod 100)) (pad2 (b mod 100)))"
    unfolding pad4_def pad2_mod [of a] pad2_mod [of b]
    by (rule jsLess_append_same_length) (simp add: pad2_length)
  also have "\<dots> \<longleftrightarrow>
      a div 100 < b div 100 \<or> (a div 100 = b div 100 \<and> a mod 100 < b mod 100)"
    by (simp only: pad2_less [OF d] pad2_eq [OF d] pad2_less [OF m])
  also have "\<dots> \<longleftrightarrow> a < b" by (rule lex_div_mod)
  finally show ?thesis .
qed

lemma pad4_eq: "a < 10000 \<Longrightarrow> b < 10000 \<Longrightarrow> pad4 a = pad4 b \<longleftrightarrow> a = b"
proof -
  assume a: "a < 10000" and b: "b < 10000"
  have d: "a div 100 < 100" "b div 100 < 100" using a b by simp_all
  have m: "a mod 100 < 100" "b mod 100 < 100" by simp_all
  have "pad4 a = pad4 b \<longleftrightarrow>
      pad2 (a div 100) = pad2 (b div 100) \<and> pad2 (a mod 100) = pad2 (b mod 100)"
    unfolding pad4_def pad2_mod [of a] pad2_mod [of b] by (simp add: pad2_length)
  also have "\<dots> \<longleftrightarrow> a div 100 = b div 100 \<and> a mod 100 = b mod 100"
    by (simp only: pad2_eq [OF d] pad2_eq [OF m])
  also have "\<dots> \<longleftrightarrow> a = b" by (rule eq_div_mod)
  finally show ?thesis .
qed

lemma daysInMonth_le: "daysInMonth y m \<le> 31"
  by (simp add: daysInMonth_def)

lemma validDate_keyable: "validDate d \<Longrightarrow> keyable d"
  using daysInMonth_le [of "year d" "month d"] by (simp add: validDate_def keyable_def)

lemma toISODate_keyable:
  "keyable d \<Longrightarrow>
     toISODate d = pad4 (year d) @ 0x2D # pad2 (month d) @ 0x2D # pad2 (dayOfMonth d)"
  by (simp add: toISODate_def keyable_def isoYear_def pad4_def pad2_def)

lemma toISODate_less:
  assumes "keyable a" "keyable b"
  shows "jsLess (toISODate a) (toISODate b) \<longleftrightarrow> dateBefore a b"
proof -
  have y: "year a < 10000" "year b < 10000" using assms by (simp_all add: keyable_def)
  have m: "month a < 100" "month b < 100" using assms by (simp_all add: keyable_def)
  have d: "dayOfMonth a < 100" "dayOfMonth b < 100" using assms by (simp_all add: keyable_def)
  have l4: "length (pad4 (year a)) = length (pad4 (year b))" by (simp add: pad4_def pad2_def)
  have l2: "length (pad2 (month a)) = length (pad2 (month b))" by (simp add: pad2_def)
  have l2': "length (pad2 (dayOfMonth a)) = length (pad2 (dayOfMonth b))" by (simp add: pad2_def)
  have days: "jsLess (pad2 (dayOfMonth a)) (pad2 (dayOfMonth b)) \<longleftrightarrow> dayOfMonth a < dayOfMonth b"
    by (rule pad2_less [OF d])
  have months: "jsLess (pad2 (month a) @ 0x2D # pad2 (dayOfMonth a))
                  (pad2 (month b) @ 0x2D # pad2 (dayOfMonth b)) \<longleftrightarrow>
      month a < month b \<or> (month a = month b \<and> dayOfMonth a < dayOfMonth b)"
    by (simp only: jsLess_append_same_length [OF l2] pad2_less [OF m] pad2_eq [OF m]
          jsLess.simps days) simp
  have "jsLess (toISODate a) (toISODate b) \<longleftrightarrow>
      year a < year b \<or> (year a = year b \<and>
         jsLess (0x2D # pad2 (month a) @ 0x2D # pad2 (dayOfMonth a))
                (0x2D # pad2 (month b) @ 0x2D # pad2 (dayOfMonth b)))"
    by (simp only: toISODate_keyable [OF assms(1)] toISODate_keyable [OF assms(2)]
          jsLess_append_same_length [OF l4] pad4_less [OF y] pad4_eq [OF y])
  also have "\<dots> \<longleftrightarrow> dateBefore a b"
    unfolding dateBefore_def using months by simp
  finally show ?thesis .
qed

lemma dayBefore_keyable: "validDate d \<Longrightarrow> keyable (dayBefore d)"
  using daysInMonth_le [of "year d" "month d - 1"] daysInMonth_le [of "year d" "month d"]
  by (auto simp: validDate_def keyable_def dayBefore_def)

lemma dayBefore_before: "validDate d \<Longrightarrow> 1 \<le> year d \<Longrightarrow> dateBefore (dayBefore d) d"
  by (auto simp: validDate_def dateBefore_def dayBefore_def)

section \<open>The ledger and the flush\<close>

lemma proto_not_ordinary: "js ''__proto__'' \<in> set objectPrototypeKeys"
  by (simp add: objectPrototypeKeys_def)

lemma readEntry_addTime_same:
  assumes "n \<notin> set objectPrototypeKeys"
    and "numericEntry (readEntry td (todayKey today) n)"
  shows "readEntry (addTime today n s td) (todayKey today) n =
           Some (Number (secondsOf (readEntry td (todayKey today) n) + s))"
proof -
  have np: "n \<noteq> js ''__proto__''" using assms(1) proto_not_ordinary by auto
  show ?thesis
  proof (cases "map_of td (todayKey today)")
    case None
    then show ?thesis using assms np
      by (simp add: readEntry_def addTime_def Let_def getProp_def setProp_def AList.update_conv')
  next
    case (Some obj)
    show ?thesis
    proof (cases "map_of obj n")
      case None
      then show ?thesis using Some assms np
        by (simp add: readEntry_def addTime_def Let_def getProp_def setProp_def AList.update_conv')
    next
      case (Some v)
      then show ?thesis using \<open>map_of td (todayKey today) = Some obj\<close> assms np
        by (cases v)
           (simp_all add: readEntry_def addTime_def Let_def getProp_def setProp_def AList.update_conv')
    qed
  qed
qed

lemma readEntry_addTime_other:
  assumes "k \<noteq> todayKey today \<or> m \<noteq> n"
  shows "readEntry (addTime today n s td) k m = readEntry td k m"
proof (cases "k = todayKey today")
  case False
  then show ?thesis by (simp add: readEntry_def addTime_def Let_def AList.update_conv')
next
  case True
  then have mn: "m \<noteq> n" using assms by blast
  have "map_of (setProp obj n v) m = map_of obj m" for obj v
    using mn by (simp add: setProp_def AList.update_conv')
  then show ?thesis using True
    by (cases "map_of td (todayKey today)")
       (simp_all add: readEntry_def addTime_def Let_def AList.update_conv')
qed

lemma flushActiveTime_start:
  "activeTabStartTime (flushActiveTime now1 today now2 w) = Some now2"
  by (simp add: flushActiveTime_def Let_def split: option.splits)

lemma flushActiveTime_name:
  "activeProjectName (flushActiveTime now1 today now2 w) = activeProjectName w"
  by (simp add: flushActiveTime_def Let_def split: option.splits)

lemma flushActiveTime_open:
  "activeProjectName w = Some n \<Longrightarrow> n \<noteq> [] \<Longrightarrow> activeTabStartTime w = Some start \<Longrightarrow>
   start \<noteq> 0 \<Longrightarrow>
   timeData (flushActiveTime now1 today now2 w) =
     (if 1 < (of_int (now1 - start) :: rat) / 1000
      then addTime today n (of_int (now1 - start) / 1000) (timeData w)
      else timeData w)"
  by (simp add: flushActiveTime_def Let_def)

lemma flushActiveTime_closed:
  "activeProjectName w = None \<Longrightarrow> timeData (flushActiveTime now1 today now2 w) = timeData w"
  by (simp add: flushActiveTime_def Let_def)

lemma flush_twice_calls:
  assumes "activeProjectName w = Some n" "n \<noteq> []"
    and "activeTabStartTime w = Some t0" "0 < t0"
  shows "timeData (flushActiveTime (t0 + 45000) today (t0 + 45000)
                     (flushActiveTime (t0 + 30000) today (t0 + 30000) w)) =
         addTime today n 15 (addTime today n 30 (timeData w))"
proof -
  let ?w1 = "flushActiveTime (t0 + 30000) today (t0 + 30000) w"
  have t0: "t0 \<noteq> 0" "t0 + 30000 \<noteq> 0" using assms(4) by simp_all
  have td1: "timeData ?w1 = addTime today n 30 (timeData w)"
    using flushActiveTime_open [OF assms(1,2,3) t0(1), of "t0 + 30000" today "t0 + 30000"]
    by simp
  have n1: "activeProjectName ?w1 = Some n" using assms(1) by (simp add: flushActiveTime_name)
  have s1: "activeTabStartTime ?w1 = Some (t0 + 30000)" by (rule flushActiveTime_start)
  have "timeData (flushActiveTime (t0 + 45000) today (t0 + 45000) ?w1) =
      addTime today n 15 (timeData ?w1)"
    using flushActiveTime_open [OF n1 assms(2) s1 t0(2), of "t0 + 45000" today "t0 + 45000"]
    by simp
  then show ?thesis by (simp only: td1)
qed

lemma flush_twice:
  assumes "activeProjectName w = Some n" "n \<noteq> []" "n \<notin> set objectPrototypeKeys"
    and "activeTabStartTime w = Some t0" "0 < t0"
    and "numericEntry (readEntry (timeData w) (todayKey today) n)"
  shows "readEntry (timeData (flushActiveTime (t0 + 45000) today (t0 + 45000)
                     (flushActiveTime (t0 + 30000) today (t0 + 30000) w)))
           (todayKey today) n =
         Some (Number (secondsOf (readEntry (timeData w) (todayKey today) n) + 45))"
proof -
  let ?td1 = "addTime today n 30 (timeData w)"
  have e1: "readEntry ?td1 (todayKey today) n =
      Some (Number (secondsOf (readEntry (timeData w) (todayKey today) n) + 30))"
    by (rule readEntry_addTime_same [OF assms(3,6)])
  then have "numericEntry (readEntry ?td1 (todayKey today) n)" by simp
  then have "readEntry (addTime today n 15 ?td1) (todayKey today) n =
      Some (Number (secondsOf (readEntry ?td1 (todayKey today) n) + 15))"
    by (rule readEntry_addTime_same [OF assms(3)])
  then show ?thesis
    unfolding flush_twice_calls [OF assms(1,2,4,5)] e1 by simp
qed

lemma startTrackingTab_gated:
  "trackingPaused w \<or> isUserIdle w \<Longrightarrow> startTrackingTab tbl now1 today now2 tabResult now3 w = w"
  by (simp add: startTrackingTab_def)

lemmas ledger_defs = readEntry_def addTime_def getProp_def setProp_def objectPrototypeKeys_def
  todayKey_def toISODate_def isoYear_def pad4_def pad2_def digitChar_def js_def day0_def


section \<open>The claims about time accounting\<close>

text \<open>
  Claim C6 fails on the code for a project whose name is a property name of
  \<open>Object.prototype\<close> (the defect of C10). Tracking the project \<open>constructor\<close> from
  1000 on, with a flush 30 seconds and one 45 seconds later on 2026-08-05, leaves in the
  entry of that day the string made of the inherited function, 30 and 15, not the number
  45; the start time is the clock of the last flush. For the project \<open>A\<close> the same run
  leaves 45.
\<close>

theorem flushActiveTime_inherited_name:
  "activeProjectName constructorWorld = Some (js ''constructor'') \<and>
   activeTabStartTime constructorWorld = Some 1000 \<and>
   timeData constructorWorld = [] \<and>
   readEntry (timeData (flushActiveTime 46000 day0 46000
                (flushActiveTime 31000 day0 31000 constructorWorld)))
     (js ''2026-08-05'') (js ''constructor'') =
     Some (Concat (Concat (Inherited (js ''constructor'')) 30) 15) \<and>
   activeTabStartTime (flushActiveTime 46000 day0 46000
                (flushActiveTime 31000 day0 31000 constructorWorld)) = Some 46000 \<and>
   readEntry (timeData (flushActiveTime 46000 day0 46000
                (flushActiveTime 31000 day0 31000 trackingWorld)))
     (js ''2026-08-05'') (js ''A'') = Some (Number 45)"
proof -
  have n: "activeProjectName constructorWorld = Some (js ''constructor'')"
    and t: "activeTabStartTime constructorWorld = Some 1000"
    and l: "timeData constructorWorld = []"
    by (simp_all add: constructorWorld_def)
  have ne: "js ''constructor'' \<noteq> []" by (simp add: js_def)
  have td: "timeData (flushActiveTime (1000 + 45000) day0 (1000 + 45000)
                (flushActiveTime (1000 + 30000) day0 (1000 + 30000) constructorWorld)) =
      addTime day0 (js ''constructor'') 15 (addTime day0 (js ''constructor'') 30 [])"
    using flush_twice_calls [OF n ne t, of day0] l by simp
  have "readEntry (addTime day0 (js ''constructor'') 15 (addTime day0 (js ''constructor'') 30 []))
      (js ''2026-08-05'') (js ''constructor'') =
      Some (Concat (Concat (Inherited (js ''constructor'')) 30) 15)"
    by (simp add: ledger_defs)
  then have a: "readEntry (timeData (flushActiveTime 46000 day0 46000
                (flushActiveTime 31000 day0 31000 constructorWorld)))
     (js ''2026-08-05'') (js ''constructor'') =
     Some (Concat (Concat (Inherited (js ''constructor'')) 30) 15)"
    using td by simp
  have s: "activeTabStartTime (flushActiveTime 46000 day0 46000
                (flushActiveTime 31000 day0 31000 constructorWorld)) = Some 46000"
    by (rule flushActiveTime_start)
  have n': "activeProjectName trackingWorld = Some (js ''A'')"
    and t': "activeTabStartTime trackingWorld = Some 1000"
    and l': "timeData trackingWorld = []"
    by (simp_all add: trackingWorld_def)
  have ne': "js ''A'' \<noteq> []" by (simp add: js_def)
  have td': "timeData (flushActiveTime (1000 + 45000) day0 (1000 + 45000)
                (flushActiveTime (1000 + 30000) day0 (1000 + 30000) trackingWorld)) =
      addTime day0 (js ''A'') 15 (addTime day0 (js ''A'') 30 [])"
    using flush_twice_calls [OF n' ne' t', of day0] l' by simp
  have "readEntry (addTime day0 (js ''A'') 15 (addTime day0 (js ''A'') 30 []))
      (js ''2026-08-05'') (js ''A'') = Some (Number 45)"
    by (simp add: ledger_defs)
  then have b: "readEntry (timeData (flushActiveTime 46000 day0 46000
                (flushActiveTime 31000 day0 31000 trackingWorld)))
     (js ''2026-08-05'') (js ''A'') = Some (Number 45)"
    using td' by simp
  show ?thesis using n t l a s b by simp
qed

text \<open>
  Claim C7, as the code has it. With no project tracked, \<open>flushActiveTime\<close> leaves the
  ledger and the project name as they are, and sets the start time to the clock; a
  second flush leaves the ledger unchanged as well.
\<close>

theorem flushActiveTime_nothing_tracked:
  "activeProjectName w = None \<Longrightarrow>
     timeData (flushActiveTime now1 today now2 w) = timeData w \<and>
     activeProjectName (flushActiveTime now1 today now2 w) = None \<and>
     activeTabStartTime (flushActiveTime now1 today now2 w) = Some now2 \<and>
     timeData (flushActiveTime now3 today' now4 (flushActiveTime now1 today now2 w)) = timeData w"
  by (simp add: flushActiveTime_closed flushActiveTime_name flushActiveTime_start)

text \<open>
  Claim C7 as stated fails: after a flush in the state with no project and no start
  time, the start time is set.
\<close>

theorem flushActiveTime_sets_start_counterexample:
  "activeProjectName idleWorld = None \<and> activeTabStartTime idleWorld = None \<and>
   activeTabStartTime (flushActiveTime 5000 day0 5000 idleWorld) = Some 5000"
  by (simp add: idleWorld_def flushActiveTime_def)

theorem flushActiveTime_nothing_tracked_witness:
  "activeProjectName idleWorld = None \<and>
   timeData (flushActiveTime 5000 day0 5000 idleWorld) = timeData idleWorld \<and>
   timeData (flushActiveTime 6000 day0 6000 (flushActiveTime 5000 day0 5000 idleWorld)) =
     timeData idleWorld"
proof -
  have h: "activeProjectName idleWorld = None" by (simp add: idleWorld_def)
  show ?thesis
    using flushActiveTime_nothing_tracked [OF h, of 5000 day0 5000 6000 day0 6000] h by simp
qed

text \<open>
  Claim C8 fails on the code. With the paused flag set, \<open>startTrackingTab\<close> returns at
  once and leaves the state as it is: the interval of project \<open>A\<close>, open since 1000,
  stays open, and the next flush of the timer (at 31000) adds its 30 seconds to the
  ledger. The listener for the idle state, in the same situation, closes the interval.
\<close>

theorem startTrackingTab_paused_keeps_interval:
  "trackingPaused pausedWorld \<and>
   startTrackingTab asciiTable 2000 day0 2000 None 2000 pausedWorld = pausedWorld \<and>
   activeProjectName (startTrackingTab asciiTable 2000 day0 2000 None 2000 pausedWorld) =
     Some (js ''A'') \<and>
   activeTabStartTime (startTrackingTab asciiTable 2000 day0 2000 None 2000 pausedWorld) =
     Some 1000 \<and>
   readEntry (timeData (flushActiveTime 31000 day0 31000
                (startTrackingTab asciiTable 2000 day0 2000 None 2000 pausedWorld)))
     (todayKey day0) (js ''A'') = Some (Number 30) \<and>
   activeProjectName (onIdle 2000 day0 2000 pausedWorld) = None"
proof -
  have p: "trackingPaused pausedWorld" by (simp add: pausedWorld_def)
  have s: "startTrackingTab asciiTable 2000 day0 2000 None 2000 pausedWorld = pausedWorld"
    using p by (simp add: startTrackingTab_gated)
  have n: "activeProjectName pausedWorld = Some (js ''A'')"
    and t: "activeTabStartTime pausedWorld = Some 1000"
    by (simp_all add: pausedWorld_def)
  have td: "timeData (flushActiveTime 31000 day0 31000 pausedWorld) =
      addTime day0 (js ''A'') 30 (timeData pausedWorld)"
    using flushActiveTime_open [OF n _ t, of 31000 day0 31000] by (simp add: js_def)
  have "readEntry (addTime day0 (js ''A'') 30 (timeData pausedWorld)) (todayKey day0) (js ''A'') =
      Some (Number 30)"
    by (simp add: ledger_defs pausedWorld_def)
  then have r: "readEntry (timeData (flushActiveTime 31000 day0 31000 pausedWorld))
      (todayKey day0) (js ''A'') = Some (Number 30)"
    by (simp only: td)
  have i: "activeProjectName (onIdle 2000 day0 2000 pausedWorld) = None"
    by (simp add: onIdle_def)
  show ?thesis using p n t r i by (simp add: s)
qed

text \<open>
  Claim C9. \<open>pruneOldData\<close> removes exactly the keys that are smaller than the day key
  of the cutoff date and leaves every other entry as it is. The entry of the cutoff date
  itself is kept; for calendar dates up to the year 9999 the key of a date is removed
  exactly when the date is before the cutoff date, and the entry of the day before the
  cutoff date is removed.
\<close>

theorem pruneOldData_cutoff:
  "map_of (pruneOldData cutoff td) k =
     (if jsLess k (toISODate cutoff) then None else map_of td k) \<and>
   map_of (pruneOldData cutoff td) (toISODate cutoff) = map_of td (toISODate cutoff) \<and>
   (validDate cutoff \<and> validDate d \<longrightarrow>
      map_of (pruneOldData cutoff td) (toISODate d) =
        (if dateBefore d cutoff then None else map_of td (toISODate d))) \<and>
   (validDate cutoff \<and> 1 \<le> year cutoff \<longrightarrow>
      map_of (pruneOldData cutoff td) (toISODate (dayBefore cutoff)) = None)"
proof (intro conjI impI)
  show "map_of (pruneOldData cutoff td) k =
     (if jsLess k (toISODate cutoff) then None else map_of td k)"
    by (rule map_of_pruneOldData)
  show "map_of (pruneOldData cutoff td) (toISODate cutoff) = map_of td (toISODate cutoff)"
    by (simp add: map_of_pruneOldData jsLess_irrefl)
  show "map_of (pruneOldData cutoff td) (toISODate d) =
        (if dateBefore d cutoff then None else map_of td (toISODate d))"
    if "validDate cutoff \<and> validDate d"
    using that by (simp add: map_of_pruneOldData toISODate_less validDate_keyable)
  show "map_of (pruneOldData cutoff td) (toISODate (dayBefore cutoff)) = None"
    if "validDate cutoff \<and> 1 \<le> year cutoff"
    using that
    by (simp add: map_of_pruneOldData toISODate_less validDate_keyable dayBefore_keyable
          dayBefore_before)
qed

theorem pruneOldData_cutoff_witness:
  "validDate day0 \<and> 1 \<le> year day0 \<and>
   toISODate day0 = js ''2026-08-05'' \<and> toISODate (dayBefore day0) = js ''2026-08-04'' \<and>
   map_of ledger0 (js ''2026-08-04'') = Some [(js ''A'', Number 10)] \<and>
   map_of (pruneOldData day0 ledger0) (js ''2026-08-05'') = Some [(js ''A'', Number 20)] \<and>
   map_of (pruneOldData day0 ledger0) (js ''2026-08-04'') = None"
proof -
  have v: "validDate day0" and y: "1 \<le> year day0"
    by (simp_all add: day0_def validDate_def daysInMonth_def)
  have k: "toISODate day0 = js ''2026-08-05''"
    and k': "toISODate (dayBefore day0) = js ''2026-08-04''"
    by (simp_all add: day0_def dayBefore_def toISODate_def isoYear_def pad4_def pad2_def
          digitChar_def js_def)
  have l: "map_of ledger0 (js ''2026-08-04'') = Some [(js ''A'', Number 10)]"
    and l': "map_of ledger0 (js ''2026-08-05'') = Some [(js ''A'', Number 20)]"
    by (simp_all add: ledger0_def js_def)
  note th = pruneOldData_cutoff [of day0 ledger0 "js ''2026-08-05''" day0]
  have "map_of (pruneOldData day0 ledger0) (toISODate day0) = map_of ledger0 (toISODate day0)"
    using th by blast
  then have a: "map_of (pruneOldData day0 ledger0) (js ''2026-08-05'') =
      Some [(js ''A'', Number 20)]"
    by (simp only: k l')
  have "map_of (pruneOldData day0 ledger0) (toISODate (dayBefore day0)) = None"
    using th v y by blast
  then have b: "map_of (pruneOldData day0 ledger0) (js ''2026-08-04'') = None"
    by (simp only: k')
  show ?thesis using v y k k' l a b by simp
qed

text \<open>
  Claim C10 fails on the code for a project name that is a property name of
  \<open>Object.prototype\<close>: \<open>timeData[day]["constructor"]\<close> reads the inherited function,
  which is truthy, and \<open>+\<close> concatenates strings. The entry of the project
  \<open>constructor\<close> in an empty ledger becomes a string, not the number 30 (as it does
  for the project \<open>A\<close>).
\<close>

theorem addTime_inherited_property:
  "readEntry (addTime day0 (js ''constructor'') 30 []) (todayKey day0) (js ''constructor'') =
     Some (Concat (Inherited (js ''constructor'')) 30) \<and>
   readEntry (addTime day0 (js ''A'') 30 []) (todayKey day0) (js ''A'') = Some (Number 30)"
  by (simp add: ledger_defs)

end
